theory Spec2Isabelle
  imports Main
begin

section \<open>Python values used by the notebook\<close>

text \<open>
  The notebook \<open>3c_ft_hf_token_classification.ipynb\<close> is Python. Its integers are
  unbounded (\<open>int\<close>), \<open>None\<close> is \<open>None\<close> of an option type, and a failing subscript
  raises: the exception is the \<open>Inl\<close> branch of a sum type.
\<close>

datatype py_error = IndexError | KeyError

text \<open>The literal \<open>-100\<close> that the notebook appends for positions to be ignored.\<close>

abbreviation IGNORE :: int where
  "IGNORE \<equiv> - 100"

text \<open>
  The subscript \<open>ner_tag[word_idx]\<close> of a list. From \<open>0\<close> upwards the index counts from the
  front, below \<open>0\<close> it counts from the back (\<open>-1\<close> is the last entry), and beyond either end
  of the list the subscript raises \<open>IndexError\<close>.
\<close>

definition list_getitem :: "'a list \<Rightarrow> int \<Rightarrow> py_error + 'a" where
  "list_getitem xs i =
     (if 0 \<le> i then
        (if i < int (length xs) then Inr (xs ! nat i) else Inl IndexError)
      else
        (if - int (length xs) \<le> i then Inr (xs ! nat (int (length xs) + i))
         else Inl IndexError))"

text \<open>The subscript \<open>id2label[l]\<close> of a dict raises \<open>KeyError\<close> for a key that is not there.\<close>

definition dict_getitem :: "('k \<rightharpoonup> 'v) \<Rightarrow> 'k \<Rightarrow> py_error + 'v" where
  "dict_getitem d k = case_option (Inl KeyError) Inr (d k)"

text \<open>
  A list comprehension evaluates its element expressions from left to right; the first
  one that raises ends the comprehension with that exception.
\<close>

fun comprehension :: "(py_error + 'a) list \<Rightarrow> py_error + 'a list" where
  "comprehension [] = Inr []"
| "comprehension (r # rs) =
     (case r of
        Inl e \<Rightarrow> Inl e
      | Inr v \<Rightarrow> (case comprehension rs of Inl e \<Rightarrow> Inl e | Inr vs \<Rightarrow> Inr (v # vs)))"

section \<open>The label realigner of \<open>preprocess_dataset\<close>\<close>

text \<open>
  The two variables that the loop over \<open>word_ids\<close> reads and writes:
  \<^verbatim>\<open>
        prev_idx = None
        single_new_ner_tag = []
        for word_idx in word_ids:
            if word_idx is None:
                single_new_ner_tag.append(-100)
            elif prev_idx != word_idx:
                single_new_ner_tag.append(ner_tag[word_idx])
            else:
                single_new_ner_tag.append(-100)
            prev_idx = word_idx
        all_new_ner_tags.append(single_new_ner_tag)
  \<close>
\<close>

record loop_vars =
  prev_idx :: "int option"
  single_new_ner_tag :: "int list"

text \<open>One iteration of the loop body, for the current \<open>word_idx\<close>.\<close>

fun loop_body :: "int list \<Rightarrow> loop_vars \<Rightarrow> int option \<Rightarrow> py_error + loop_vars" where
  "loop_body ner_tag s None =
     Inr (s\<lparr>single_new_ner_tag := single_new_ner_tag s @ [IGNORE], prev_idx := None\<rparr>)"
| "loop_body ner_tag s (Some w) =
     (if prev_idx s \<noteq> Some w then
        (case list_getitem ner_tag w of
           Inl e \<Rightarrow> Inl e
         | Inr v \<Rightarrow>
             Inr (s\<lparr>single_new_ner_tag := single_new_ner_tag s @ [v], prev_idx := Some w\<rparr>))
      else
        Inr (s\<lparr>single_new_ner_tag := single_new_ner_tag s @ [IGNORE], prev_idx := Some w\<rparr>))"

text \<open>The loop \<open>for word_idx in word_ids\<close>; an exception leaves it at once.\<close>

fun word_ids_loop :: "int list \<Rightarrow> int option list \<Rightarrow> loop_vars \<Rightarrow> py_error + loop_vars" where
  "word_ids_loop ner_tag [] s = Inr s"
| "word_ids_loop ner_tag (word_idx # rest) s =
     (case loop_body ner_tag s word_idx of
        Inl e \<Rightarrow> Inl e
      | Inr s' \<Rightarrow> word_ids_loop ner_tag rest s')"

text \<open>
  The realigner for one example: both variables are initialised, the loop runs, and the
  list \<open>single_new_ner_tag\<close> is the aligned label sequence.
\<close>

definition realign :: "int list \<Rightarrow> int option list \<Rightarrow> py_error + int list" where
  "realign ner_tag word_ids =
     (case word_ids_loop ner_tag word_ids \<lparr>prev_idx = None, single_new_ner_tag = []\<rparr> of
        Inl e \<Rightarrow> Inl e
      | Inr s \<Rightarrow> Inr (single_new_ner_tag s))"

text \<open>
  The outer loop \<open>for ner_idx, ner_tag in enumerate(ner_tags)\<close>. The tokenizer is a
  library: \<open>tokenized_info.word_ids(batch_index=ner_idx)\<close> is the parameter
  \<open>word_ids_of\<close>. Python keeps the two loop variables from one iteration to the next, so
  they are passed along in \<open>s\<close>; each iteration starts by assigning both anew.
\<close>

fun ner_tags_loop ::
  "(nat \<Rightarrow> int option list) \<Rightarrow> (nat \<times> int list) list \<Rightarrow> loop_vars \<Rightarrow> int list list
     \<Rightarrow> py_error + int list list" where
  "ner_tags_loop word_ids_of [] s all_new_ner_tags = Inr all_new_ner_tags"
| "ner_tags_loop word_ids_of ((ner_idx, ner_tag) # rest) s all_new_ner_tags =
     (let word_ids = word_ids_of ner_idx;
          s0 = s\<lparr>prev_idx := None, single_new_ner_tag := []\<rparr>
      in case word_ids_loop ner_tag word_ids s0 of
           Inl e \<Rightarrow> Inl e
         | Inr s' \<Rightarrow>
             ner_tags_loop word_ids_of rest s' (all_new_ner_tags @ [single_new_ner_tag s']))"

text \<open>
  The value stored under \<open>'labels'\<close>. Before the first iteration the two loop variables
  are unbound; \<open>s\<close> stands for whatever they hold.
\<close>

definition preprocess_dataset ::
  "loop_vars \<Rightarrow> (nat \<Rightarrow> int option list) \<Rightarrow> int list list \<Rightarrow> py_error + int list list" where
  "preprocess_dataset s word_ids_of ner_tags =
     ner_tags_loop word_ids_of (enumerate 0 ner_tags) s []"

section \<open>The metric inputs of \<open>compute_metrics\<close>\<close>

text \<open>
  \<^verbatim>\<open>id2label = {k:v for k,v in enumerate(dataset['train'].features['ner_tags'].feature.names)}\<close>
  The label names come from the dataset, so they are the parameter \<open>names\<close>.
\<close>

definition id2label_of :: "string list \<Rightarrow> (int \<rightharpoonup> string)" where
  "id2label_of names = map_of (map (\<lambda>(k, v). (int k, v)) (enumerate 0 names))"

text \<open>
  \<^verbatim>\<open>true_labels = [[id2label[l] for l in label if l != -100] for label in labels]\<close>
\<close>

definition true_labels :: "(int \<rightharpoonup> string) \<Rightarrow> int list list \<Rightarrow> py_error + string list list" where
  "true_labels id2label labels =
     comprehension
       (map (\<lambda>label. comprehension (map (\<lambda>l. dict_getitem id2label l)
                                          (filter (\<lambda>l. l \<noteq> IGNORE) label)))
            labels)"

text \<open>
  \<^verbatim>\<open>true_predictions = [[id2label[p] for (p,l) in zip(prediction, label) if l != -100]
                     for prediction, label in zip(predictions, labels)]\<close>
  Python's \<open>zip\<close> stops at the shorter argument, as \<^const>\<open>zip\<close> does.
\<close>

definition true_predictions ::
  "(int \<rightharpoonup> string) \<Rightarrow> int list list \<Rightarrow> int list list \<Rightarrow> py_error + string list list" where
  "true_predictions id2label predictions labels =
     comprehension
       (map (\<lambda>(prediction, label).
               comprehension (map (\<lambda>(p, l). dict_getitem id2label p)
                                  (filter (\<lambda>(p, l). l \<noteq> IGNORE) (zip prediction label))))
            (zip predictions labels))"

text \<open>
  The pair \<open>(true_predictions, true_labels)\<close> that \<open>compute_metrics\<close> hands to
  \<open>seqeval.compute(predictions=..., references=...)\<close>, in the order the function
  computes them: \<open>true_labels\<close> first. \<open>predictions\<close> is the result of the library call
  \<open>np.argmax(probs, axis=2)\<close>; the metric itself is a library too.
\<close>

definition seqeval_arguments ::
  "(int \<rightharpoonup> string) \<Rightarrow> int list list \<Rightarrow> int list list
     \<Rightarrow> py_error + (string list list \<times> string list list)" where
  "seqeval_arguments id2label predictions labels =
     (case true_labels id2label labels of
        Inl e \<Rightarrow> Inl e
      | Inr refs \<Rightarrow>
          (case true_predictions id2label predictions labels of
             Inl e \<Rightarrow> Inl e
           | Inr preds \<Rightarrow> Inr (preds, refs)))"

section \<open>Notions used to state the properties\<close>

text \<open>A word index that lies in \<open>[0, len(L))\<close>, and a token-to-word map of such indices.\<close>

definition in_range :: "int list \<Rightarrow> int \<Rightarrow> bool" where
  "in_range L w \<longleftrightarrow> 0 \<le> w \<and> w < int (length L)"

definition valid_map :: "int list \<Rightarrow> int option list \<Rightarrow> bool" where
  "valid_map L M \<longleftrightarrow> (\<forall>x\<in>set M. case x of None \<Rightarrow> True | Some w \<Rightarrow> in_range L w)"

text \<open>
  Positions \<open>i, \<dots>, j - 1\<close> of \<open>M\<close> are a maximal contiguous run of the word index \<open>w\<close>:
  all of them hold \<open>w\<close>, and neither neighbour does.
\<close>

definition maximal_run :: "int option list \<Rightarrow> nat \<Rightarrow> nat \<Rightarrow> int \<Rightarrow> bool" where
  "maximal_run M i j w \<longleftrightarrow>
     i < j \<and> j \<le> length M \<and> (\<forall>t\<in>{i..<j}. M ! t = Some w)
     \<and> (i = 0 \<or> M ! (i - 1) \<noteq> Some w) \<and> (j = length M \<or> M ! j \<noteq> Some w)"

text \<open>
  An index that the subscript \<open>L[w]\<close> accepts: Python reads a negative \<open>w\<close> from the end.
\<close>

definition subscriptable :: "int list \<Rightarrow> int \<Rightarrow> bool" where
  "subscriptable L w \<longleftrightarrow> - int (length L) \<le> w \<and> w < int (length L)"

text \<open>The positions of one example whose true label is not the ignore value.\<close>

definition kept_positions :: "int list \<Rightarrow> nat list" where
  "kept_positions label = filter (\<lambda>t. label ! t \<noteq> IGNORE) [0..<length label]"

text \<open>
  The value one iteration appends, as a function of \<open>prev_idx\<close> and \<open>word_idx\<close>, and the
  values the loop appends along a map that it enters with \<open>prev_idx = p\<close>. Both are
  auxiliary: the lemmas below relate them to the loop.
\<close>

fun label_of :: "int list \<Rightarrow> int option \<Rightarrow> int option \<Rightarrow> py_error + int" where
  "label_of ner_tag p None = Inr IGNORE"
| "label_of ner_tag p (Some w) =
     (if p \<noteq> Some w then list_getitem ner_tag w else Inr IGNORE)"

fun labels_from :: "int list \<Rightarrow> int option \<Rightarrow> int option list \<Rightarrow> (py_error + int) list" where
  "labels_from ner_tag p [] = []"
| "labels_from ner_tag p (x # rest) = label_of ner_tag p x # labels_from ner_tag x rest"

section \<open>Auxiliary lemmas\<close>

lemma loop_body_label_of:
  "loop_body L s x =
     (case label_of L (prev_idx s) x of
        Inl e \<Rightarrow> Inl e
      | Inr v \<Rightarrow> Inr (s\<lparr>single_new_ner_tag := single_new_ner_tag s @ [v], prev_idx := x\<rparr>))"
  by (cases x) (auto split: sum.splits)

lemma word_ids_loop_labels_from:
  "word_ids_loop L M s =
     (case comprehension (labels_from L (prev_idx s) M) of
        Inl e \<Rightarrow> Inl e
      | Inr out \<Rightarrow>
          Inr (s\<lparr>single_new_ner_tag := single_new_ner_tag s @ out,
                 prev_idx := last (prev_idx s # M)\<rparr>))"
proof (induction M arbitrary: s)
  case Nil
  show ?case by simp
next
  case (Cons x M)
  show ?case
    by (simp add: loop_body_label_of Cons.IH split: sum.splits)
qed

lemma realign_labels_from: "realign L M = comprehension (labels_from L None M)"
  by (simp add: realign_def word_ids_loop_labels_from split: sum.splits)

lemma comprehension_map_Inr: "comprehension (map Inr vs) = Inr vs"
  by (induction vs) auto

lemma comprehension_Inr_D: "comprehension rs = Inr vs \<Longrightarrow> rs = map Inr vs"
  by (induction rs arbitrary: vs) (auto split: sum.splits)

lemma comprehension_Inr_iff: "comprehension rs = Inr vs \<longleftrightarrow> rs = map Inr vs"
  using comprehension_map_Inr comprehension_Inr_D by blast

lemma comprehension_Inl_mem: "comprehension rs = Inl e \<Longrightarrow> Inl e \<in> set rs"
  by (induction rs) (auto split: sum.splits)

lemma comprehension_mem_Inl: "Inl e \<in> set rs \<Longrightarrow> \<exists>e'. comprehension rs = Inl e'"
  by (induction rs) (auto split: sum.splits)

lemma length_labels_from: "length (labels_from L p M) = length M"
  by (induction M arbitrary: p) auto

lemma labels_from_nth:
  "t < length M \<Longrightarrow>
   labels_from L p M ! t = label_of L (if t = 0 then p else M ! (t - 1)) (M ! t)"
proof (induction M arbitrary: p t)
  case Nil
  then show ?case by simp
next
  case (Cons x M)
  show ?case
  proof (cases t)
    case 0
    then show ?thesis by simp
  next
    case (Suc u)
    with Cons.prems have "u < length M" by simp
    from Cons.IH [OF this, of x] Suc show ?thesis
      by (cases u) auto
  qed
qed

lemma realign_Inr_iff:
  "realign L M = Inr A \<longleftrightarrow>
     length A = length M
     \<and> (\<forall>t<length M. label_of L (if t = 0 then None else M ! (t - 1)) (M ! t) = Inr (A ! t))"
proof -
  have "realign L M = Inr A \<longleftrightarrow> labels_from L None M = map Inr A"
    by (simp add: realign_labels_from comprehension_Inr_iff)
  also have "\<dots> \<longleftrightarrow> length A = length M
     \<and> (\<forall>t<length M. labels_from L None M ! t = Inr (A ! t))"
    by (auto simp: list_eq_iff_nth_eq length_labels_from)
  finally show ?thesis
    by (simp add: labels_from_nth)
qed

lemma list_getitem_in_range: "in_range L w \<Longrightarrow> list_getitem L w = Inr (L ! nat w)"
  by (simp add: in_range_def list_getitem_def)

lemma label_of_valid:
  "(case x of None \<Rightarrow> True | Some w \<Rightarrow> in_range L w) \<Longrightarrow> \<exists>v. label_of L p x = Inr v"
  by (cases x) (auto simp: list_getitem_in_range)

lemma realign_total:
  assumes "valid_map L M" shows "\<exists>A. realign L M = Inr A"
proof -
  have "\<forall>t<length M. \<exists>v. label_of L (if t = 0 then None else M ! (t - 1)) (M ! t) = Inr v"
    using assms label_of_valid unfolding valid_map_def by (metis nth_mem)
  then obtain f where f: "\<forall>t<length M. label_of L (if t = 0 then None else M ! (t - 1)) (M ! t) = Inr (f t)"
    by metis
  have "realign L M = Inr (map f [0..<length M])"
    unfolding realign_Inr_iff using f by simp
  then show ?thesis ..
qed

lemma valid_map_nth: "valid_map L M \<Longrightarrow> t < length M \<Longrightarrow> M ! t = Some w \<Longrightarrow> in_range L w"
  unfolding valid_map_def by (metis nth_mem option.simps(5))

lemma label_of_same: "label_of L x x = Inr IGNORE"
  by (cases x) auto

lemma realign_nth_first:
  assumes "realign L M = Inr A" and "t < length M" and "M ! t = Some w"
    and "in_range L w" and "t = 0 \<or> M ! (t - 1) \<noteq> Some w"
  shows "A ! t = L ! nat w"
proof -
  from assms(1,2) have "label_of L (if t = 0 then None else M ! (t - 1)) (M ! t) = Inr (A ! t)"
    by (simp add: realign_Inr_iff)
  with assms(3,4,5) show ?thesis
    by (auto simp: list_getitem_in_range split: if_splits)
qed

lemma realign_nth_repeat:
  assumes "realign L M = Inr A" and "t < length M" and "0 < t" and "M ! t = M ! (t - 1)"
  shows "A ! t = IGNORE"
proof -
  from assms(1,2) have "label_of L (if t = 0 then None else M ! (t - 1)) (M ! t) = Inr (A ! t)"
    by (simp add: realign_Inr_iff)
  with assms(3,4) show ?thesis
    by (simp add: label_of_same)
qed

lemma realign_nth_None:
  assumes "realign L M = Inr A" and "t < length M" and "M ! t = None"
  shows "A ! t = IGNORE"
proof -
  from assms(1,2) have "label_of L (if t = 0 then None else M ! (t - 1)) (M ! t) = Inr (A ! t)"
    by (simp add: realign_Inr_iff)
  with assms(3) show ?thesis by simp
qed

lemma list_getitem_Inl_iff: "list_getitem L w = Inl e \<longleftrightarrow> e = IndexError \<and> \<not> subscriptable L w"
  by (auto simp: list_getitem_def subscriptable_def)

lemma label_of_Inl_D:
  "label_of L p x = Inl e \<Longrightarrow> e = IndexError \<and> (\<exists>w. x = Some w \<and> \<not> subscriptable L w)"
  by (cases x) (auto simp: list_getitem_Inl_iff split: if_splits)

lemma labels_from_mem_D:
  "r \<in> set (labels_from L p M) \<Longrightarrow> \<exists>q. \<exists>x\<in>set M. r = label_of L q x"
  by (induction M arbitrary: p) fastforce+

lemma realign_Inl_D:
  assumes "realign L M = Inl e"
  shows "e = IndexError \<and> (\<exists>w. Some w \<in> set M \<and> \<not> subscriptable L w)"
proof -
  from assms have "Inl e \<in> set (labels_from L None M)"
    by (simp add: realign_labels_from comprehension_Inl_mem)
  then obtain q x where "x \<in> set M" "label_of L q x = Inl e"
    using labels_from_mem_D by metis
  then show ?thesis
    using label_of_Inl_D by blast
qed

lemma labels_from_raises:
  assumes "Some w \<in> set M" and "\<not> subscriptable L w"
    and "\<forall>v. p = Some v \<longrightarrow> subscriptable L v"
  shows "\<exists>e. comprehension (labels_from L p M) = Inl e"
  using assms
proof (induction M arbitrary: p)
  case Nil
  then show ?case by simp
next
  case (Cons x M)
  show ?case
  proof (cases "label_of L p x")
    case (Inl e)
    then show ?thesis by simp
  next
    case (Inr v)
    have "x \<noteq> Some w"
    proof
      assume "x = Some w"
      with Cons.prems(2,3) have "label_of L p x = Inl IndexError"
        by (auto simp: list_getitem_def subscriptable_def)
      with Inr show False by simp
    qed
    with Cons.prems(1) have mem: "Some w \<in> set M" by simp
    have "\<forall>u. x = Some u \<longrightarrow> subscriptable L u"
    proof (intro allI impI)
      fix u assume u: "x = Some u"
      show "subscriptable L u"
      proof (cases "p = Some u")
        case True
        with Cons.prems(3) show ?thesis by simp
      next
        case False
        with Inr u have "list_getitem L u = Inr v" by simp
        then show ?thesis
          using list_getitem_Inl_iff [of L u IndexError] by auto
      qed
    qed
    from Cons.IH [OF mem Cons.prems(2) this] Inr show ?thesis
      by auto
  qed
qed

lemma loop_vars_assigned:
  "(s :: loop_vars)\<lparr>prev_idx := None, single_new_ner_tag := []\<rparr> =
   \<lparr>prev_idx = None, single_new_ner_tag = []\<rparr>"
  by (cases s) simp

lemma ner_tags_loop_comprehension:
  "ner_tags_loop W ex s acc =
     (case comprehension (map (\<lambda>(ner_idx, ner_tag). realign ner_tag (W ner_idx)) ex) of
        Inl e \<Rightarrow> Inl e
      | Inr out \<Rightarrow> Inr (acc @ out))"
proof (induction ex arbitrary: s acc)
  case Nil
  show ?case by simp
next
  case (Cons a ex)
  obtain ner_idx ner_tag where a: "a = (ner_idx, ner_tag)" by (cases a)
  show ?case
    unfolding a
    by (simp add: loop_vars_assigned realign_def Cons.IH split: sum.splits)
qed

lemma filter_kept_positions:
  "filter (\<lambda>l. l \<noteq> IGNORE) ls = map (\<lambda>t. ls ! t) (kept_positions ls)"
proof -
  have "filter (\<lambda>l. l \<noteq> IGNORE) (map (\<lambda>t. ls ! t) [0..<length ls])
        = map (\<lambda>t. ls ! t) (kept_positions ls)"
    by (simp only: kept_positions_def filter_map comp_def)
  then show ?thesis
    by (simp only: map_nth)
qed

lemma zip_filter_kept_positions:
  assumes "length ps = length ls"
  shows "filter (\<lambda>(p, l). l \<noteq> IGNORE) (zip ps ls)
         = map (\<lambda>t. (ps ! t, ls ! t)) (kept_positions ls)"
proof -
  have "zip ps ls = map (\<lambda>t. (ps ! t, ls ! t)) [0..<length ls]"
    using assms by (intro nth_equalityI) simp_all
  then show ?thesis
    by (simp only: kept_positions_def filter_map comp_def split_conv)
qed

lemma true_labels_Inr_D:
  assumes "true_labels id2label labels = Inr refs"
  shows "length refs = length labels"
    and "i < length labels \<Longrightarrow>
         map Inr (refs ! i)
         = map (\<lambda>t. dict_getitem id2label (labels ! i ! t)) (kept_positions (labels ! i))"
proof -
  from assms have eq: "map (\<lambda>label. comprehension (map (\<lambda>l. dict_getitem id2label l)
                          (filter (\<lambda>l. l \<noteq> IGNORE) label))) labels = map Inr refs"
    by (simp add: true_labels_def comprehension_Inr_iff)
  then show len: "length refs = length labels"
    by (metis length_map)
  assume i: "i < length labels"
  from eq have "map (\<lambda>label. comprehension (map (\<lambda>l. dict_getitem id2label l)
                          (filter (\<lambda>l. l \<noteq> IGNORE) label))) labels ! i = map Inr refs ! i"
    by simp
  with i len have "comprehension (map (\<lambda>l. dict_getitem id2label l)
                          (filter (\<lambda>l. l \<noteq> IGNORE) (labels ! i))) = Inr (refs ! i)"
    by simp
  then show "map Inr (refs ! i)
         = map (\<lambda>t. dict_getitem id2label (labels ! i ! t)) (kept_positions (labels ! i))"
    by (simp add: comprehension_Inr_iff filter_kept_positions comp_def)
qed

lemma true_predictions_Inr_D:
  assumes "true_predictions id2label predictions labels = Inr preds"
    and "length predictions = length labels"
  shows "length preds = length labels"
    and "i < length labels \<Longrightarrow> length (predictions ! i) = length (labels ! i) \<Longrightarrow>
         map Inr (preds ! i)
         = map (\<lambda>t. dict_getitem id2label (predictions ! i ! t)) (kept_positions (labels ! i))"
proof -
  let ?f = "\<lambda>(prediction, label).
               comprehension (map (\<lambda>(p, l). dict_getitem id2label p)
                                  (filter (\<lambda>(p, l). l \<noteq> IGNORE) (zip prediction label)))"
  from assms(1) have eq: "map ?f (zip predictions labels) = map Inr preds"
    by (simp add: true_predictions_def comprehension_Inr_iff)
  then have "length (zip predictions labels) = length preds"
    by (metis length_map)
  with assms(2) show len: "length preds = length labels"
    by simp
  assume i: "i < length labels" and li: "length (predictions ! i) = length (labels ! i)"
  from eq have "map ?f (zip predictions labels) ! i = map Inr preds ! i"
    by simp
  with i len assms(2) have "?f (predictions ! i, labels ! i) = Inr (preds ! i)"
    by simp
  then show "map Inr (preds ! i)
         = map (\<lambda>t. dict_getitem id2label (predictions ! i ! t)) (kept_positions (labels ! i))"
    by (simp add: comprehension_Inr_iff zip_filter_kept_positions [OF li] comp_def)
qed

section \<open>Theorems\<close>

text \<open>
  C1. Let every non-sentinel entry of \<open>M\<close> be an index into \<open>L\<close>, and let positions
  \<open>i, \<dots>, j - 1\<close> be a maximal contiguous run of the word index \<open>w\<close>. Then the realigner
  returns a sequence that holds the true label \<open>L[w]\<close> at the first position \<open>i\<close> of the run
  and the ignore value \<open>-100\<close> at every other position of the run. Label ids differ from
  the ignore value; for such a label, \<open>i\<close> is the one position of the run whose output
  equals \<open>L[w]\<close>.
\<close>

theorem realign_run_first_only:
  assumes "valid_map L M" and "maximal_run M i j w"
  shows "\<exists>A. realign L M = Inr A
           \<and> A ! i = L ! nat w
           \<and> (\<forall>t. i < t \<and> t < j \<longrightarrow> A ! t = IGNORE)
           \<and> (L ! nat w \<noteq> IGNORE \<longrightarrow> (\<forall>t\<in>{i..<j}. A ! t = L ! nat w \<longleftrightarrow> t = i))"
proof -
  from assms(1) obtain A where A: "realign L M = Inr A"
    using realign_total by blast
  from assms(2) have run: "i < j" "j \<le> length M" "\<And>t. i \<le> t \<Longrightarrow> t < j \<Longrightarrow> M ! t = Some w"
    "i = 0 \<or> M ! (i - 1) \<noteq> Some w"
    by (auto simp: maximal_run_def)
  have i: "i < length M" "M ! i = Some w"
    using run by auto
  then have w: "in_range L w"
    using assms(1) valid_map_nth by blast
  have first: "A ! i = L ! nat w"
    using realign_nth_first [OF A i w run(4)] .
  have rest: "A ! t = IGNORE" if "i < t" "t < j" for t
  proof -
    have "M ! t = M ! (t - 1)"
      using run(3) [of t] run(3) [of "t - 1"] that by simp
    then show ?thesis
      using realign_nth_repeat [OF A, of t] that run(2) by simp
  qed
  have "\<forall>t\<in>{i..<j}. A ! t = L ! nat w \<longleftrightarrow> t = i" if "L ! nat w \<noteq> IGNORE"
  proof
    fix t assume "t \<in> {i..<j}"
    then consider "t = i" | "i < t" "t < j" by force
    then show "A ! t = L ! nat w \<longleftrightarrow> t = i"
      using first rest that by cases auto
  qed
  with A first rest show ?thesis by blast
qed

text \<open>
  The hypotheses of C1 hold on \<open>L = [5]\<close>, \<open>M = [None, 0, 0, None]\<close> with the run at
  positions 1 and 2.
\<close>

theorem realign_run_first_only_witness:
  "valid_map [5] [None, Some 0, Some 0, None]
   \<and> maximal_run [None, Some 0, Some 0, None] 1 3 0
   \<and> (\<exists>A. realign [5] [None, Some 0, Some 0, None] = Inr A
          \<and> A ! 1 = [5] ! nat 0
          \<and> (\<forall>t. 1 < t \<and> t < 3 \<longrightarrow> A ! t = IGNORE)
          \<and> ([5] ! nat 0 \<noteq> IGNORE \<longrightarrow> (\<forall>t\<in>{1..<3}. A ! t = [5] ! nat 0 \<longleftrightarrow> t = 1)))"
proof -
  have v: "valid_map [5] [None, Some 0, Some 0, None]"
    by (simp add: valid_map_def in_range_def)
  have r: "maximal_run [None, Some 0, Some 0, None] 1 3 0"
    by code_simp
  show ?thesis
    by (intro conjI v r realign_run_first_only [OF v r])
qed

text \<open>
  C2. The aligned label sequence is as long as \<open>M\<close>: whenever the realigner returns, the
  lengths agree; it returns for every map whose non-sentinel entries are indices into
  \<open>L\<close>; and each branch of the loop body that completes appends exactly one entry.
\<close>

theorem realign_length_preserved:
  "(valid_map L M \<longrightarrow> (\<exists>A. realign L M = Inr A))
   \<and> (\<forall>A. realign L M = Inr A \<longrightarrow> length A = length M)
   \<and> (\<forall>s x s'. loop_body L s x = Inr s'
         \<longrightarrow> length (single_new_ner_tag s') = Suc (length (single_new_ner_tag s)))"
proof (intro conjI allI impI)
  assume "valid_map L M"
  then show "\<exists>A. realign L M = Inr A" by (rule realign_total)
next
  fix A assume "realign L M = Inr A"
  then show "length A = length M" by (simp add: realign_Inr_iff)
next
  fix s x s' assume "loop_body L s x = Inr s'"
  then show "length (single_new_ner_tag s') = Suc (length (single_new_ner_tag s))"
    by (cases x) (auto split: if_splits sum.splits)
qed

text \<open>
  C2 on \<open>L = [5]\<close>, \<open>M = [None, 0, 0, None]\<close>.
\<close>

theorem realign_length_preserved_witness:
  "valid_map [5] [None, Some 0, Some 0, None]
   \<and> (\<exists>A. realign [5] [None, Some 0, Some 0, None] = Inr A
          \<and> length A = length [None, Some (0::int), Some 0, None])"
proof -
  have v: "valid_map [5] [None, Some 0, Some 0, None]"
    by (simp add: valid_map_def in_range_def)
  with realign_length_preserved [of "[5]" "[None, Some 0, Some 0, None]"] show ?thesis
    by blast
qed

text \<open>
  C3. Wherever \<open>M[t]\<close> is \<open>None\<close>, the output at position \<open>t\<close> is \<open>-100\<close>, whatever \<open>L\<close> and the
  other entries of \<open>M\<close> are; and the realigner returns an output for every map whose
  non-sentinel entries are indices into \<open>L\<close>.
\<close>

theorem realign_sentinel_ignored:
  "(valid_map L M \<longrightarrow> (\<exists>A. realign L M = Inr A))
   \<and> (\<forall>A t. realign L M = Inr A \<and> t < length M \<and> M ! t = None \<longrightarrow> A ! t = IGNORE)"
  using realign_total realign_nth_None by blast

text \<open>
  C3 on \<open>L = [5]\<close>, \<open>M = [None, 0, 0, None]\<close> at the last position.
\<close>

theorem realign_sentinel_ignored_witness:
  "valid_map [5] [None, Some 0, Some 0, None]
   \<and> 3 < length [None, Some (0::int), Some 0, None]
   \<and> [None, Some (0::int), Some 0, None] ! 3 = None
   \<and> (\<exists>A. realign [5] [None, Some 0, Some 0, None] = Inr A \<and> A ! 3 = IGNORE)"
proof -
  have v: "valid_map [5] [None, Some 0, Some 0, None]"
    by (simp add: valid_map_def in_range_def)
  have n: "3 < length [None, Some (0::int), Some 0, None]
           \<and> [None, Some (0::int), Some 0, None] ! 3 = None"
    by simp
  from v n realign_sentinel_ignored [of "[5]" "[None, Some 0, Some 0, None]"] show ?thesis
    by blast
qed

text \<open>
  C4, as amended. The realigner raises \<open>IndexError\<close>, instead of returning labels, exactly
  when some non-sentinel entry of \<open>M\<close> lies outside \<open>[-len(L), len(L))\<close>; it raises nothing
  else. An entry \<open>w\<close> with \<open>-len(L) \<le> w < 0\<close> is accepted: the subscript \<open>ner_tag[word_idx]\<close>
  counts a negative index from the end of \<open>L\<close>.
\<close>

theorem realign_raises_iff:
  "(realign L M = Inl IndexError \<longleftrightarrow> (\<exists>w. Some w \<in> set M \<and> \<not> subscriptable L w))
   \<and> realign L M \<noteq> Inl KeyError"
proof -
  have "\<exists>e. realign L M = Inl e" if "Some w \<in> set M" "\<not> subscriptable L w" for w
    using labels_from_raises [OF that, of None] by (simp add: realign_labels_from)
  then show ?thesis
    using realign_Inl_D by (metis py_error.distinct(1))
qed

text \<open>
  The amended C4 on \<open>L = [7, 8]\<close>: the entry \<open>2\<close> and the entry \<open>-3\<close> both raise.
\<close>

theorem realign_raises_iff_witness:
  "realign [7, 8] [None, Some 0, Some 2, Some 1] = Inl IndexError
   \<and> realign [7, 8] [None, Some (- 3)] = Inl IndexError"
proof -
  have a: "\<exists>w. Some w \<in> set [None, Some 0, Some 2, Some 1] \<and> \<not> subscriptable [7, 8] w"
    by (rule exI [of _ 2]) (simp add: subscriptable_def)
  have b: "\<exists>w. Some w \<in> set [None, Some (- 3)] \<and> \<not> subscriptable [7, 8] w"
    by (rule exI [of _ "- 3"]) (simp add: subscriptable_def)
  from a b show ?thesis
    using realign_raises_iff [of "[7, 8]" "[None, Some 0, Some 2, Some 1]"]
      realign_raises_iff [of "[7, 8]" "[None, Some (- 3)]"]
    by blast
qed

text \<open>
  C4 as stated fails: on \<open>L = [7, 8]\<close> the entry \<open>-1\<close> is outside \<open>[0, len(L))\<close>, and the
  realigner returns the label \<open>8\<close> for it.
\<close>

theorem realign_negative_index_counterexample:
  "\<not> in_range [7, 8] (- 1) \<and> realign [7, 8] [Some (- 1)] = Inr [8]"
  by (simp add: in_range_def realign_def list_getitem_def)

text \<open>
  C5. The labels that \<open>preprocess_dataset\<close> computes do not depend on what the loop
  variables \<open>prev_idx\<close> and \<open>single_new_ner_tag\<close> held before: each example's labels are the
  realigner's value on that example's own \<open>(L, M)\<close>, so the same input gives the same
  output and nothing is carried from one example to the next.
\<close>

theorem preprocess_dataset_deterministic:
  "preprocess_dataset s1 W Ls = preprocess_dataset s2 W Ls
   \<and> preprocess_dataset s1 W Ls =
       comprehension (map (\<lambda>(ner_idx, ner_tag). realign ner_tag (W ner_idx)) (enumerate 0 Ls))"
  by (simp add: preprocess_dataset_def ner_tags_loop_comprehension split: sum.splits)

text \<open>
  C6. On \<open>L = [1,2,3,4,5,6]\<close> and
  \<open>M = [None,0,1,1,2,2,2,3,4,5,5,5,None]\<close> the realigner returns the thirteen labels
  \<open>[-100,1,2,-100,3,-100,-100,4,5,6,-100,-100,-100]\<close>: as long as \<open>M\<close>, with the real
  label at the first token of each run only; it does not return the eight labels
  \<open>[-100,1,2,3,4,5,6,-100]\<close> of the comment in the code.
\<close>

theorem realign_scenario_2:
  "realign [1, 2, 3, 4, 5, 6]
     [None, Some 0, Some 1, Some 1, Some 2, Some 2, Some 2, Some 3, Some 4,
      Some 5, Some 5, Some 5, None]
   = Inr [IGNORE, 1, 2, IGNORE, 3, IGNORE, IGNORE, 4, 5, 6, IGNORE, IGNORE, IGNORE]
   \<and> realign [1, 2, 3, 4, 5, 6]
     [None, Some 0, Some 1, Some 1, Some 2, Some 2, Some 2, Some 3, Some 4,
      Some 5, Some 5, Some 5, None]
   \<noteq> Inr [IGNORE, 1, 2, 3, 4, 5, 6, IGNORE]"
  by (simp add: realign_def list_getitem_def)

text \<open>
  C7. For \<open>L = []\<close> and a map that holds \<open>None\<close> only, the realigner returns \<open>-100\<close> at every
  position of \<open>M\<close> and raises nothing. The subscript \<open>ner_tag[word_idx]\<close> is not reached on
  such a run: on the empty list it raises for every index, and the run does not raise.
\<close>

theorem realign_empty_words:
  assumes "\<forall>x\<in>set M. x = None"
  shows "realign [] M = Inr (replicate (length M) IGNORE)
         \<and> (\<forall>w. list_getitem ([] :: int list) w = Inl IndexError)"
proof
  have "M ! t = None" if "t < length M" for t
    using assms that by simp
  then show "realign [] M = Inr (replicate (length M) IGNORE)"
    unfolding realign_Inr_iff by simp
  show "\<forall>w. list_getitem ([] :: int list) w = Inl IndexError"
    by (simp add: list_getitem_def)
qed

text \<open>
  C7 on \<open>M = [None, None]\<close>.
\<close>

theorem realign_empty_words_witness:
  "realign [] [None, None] = Inr (replicate (length [None, None :: int option]) IGNORE)
   \<and> realign [] [None, None] = Inr [IGNORE, IGNORE]"
proof -
  have h: "\<forall>x\<in>set [None, None :: int option]. x = None"
    by simp
  from realign_empty_words [OF h] show ?thesis
    by simp
qed

text \<open>
  C8. Let the word index \<open>w\<close> occur in two maximal runs of a valid map, with a position
  \<open>k\<close> between them that holds another word index. Then the output holds \<open>L[w]\<close> at the
  first position of each of the two runs; and at every position the output is what one
  iteration of the loop body appends when it starts from \<open>prev_idx = M[t-1]\<close> (\<open>None\<close> at
  \<open>t = 0\<close>): nothing but the preceding position's word index is used.
\<close>

theorem realign_nonadjacent_runs:
  assumes "valid_map L M" and "maximal_run M i1 j1 w" and "maximal_run M i2 j2 w"
    and "j1 \<le> k" and "k < i2" and "M ! k = Some w'" and "w' \<noteq> w"
  shows "\<exists>A. realign L M = Inr A \<and> A ! i1 = L ! nat w \<and> A ! i2 = L ! nat w
           \<and> (\<forall>t<length M.
                 loop_body L \<lparr>prev_idx = (if t = 0 then None else M ! (t - 1)),
                              single_new_ner_tag = []\<rparr> (M ! t)
                 = Inr \<lparr>prev_idx = M ! t, single_new_ner_tag = [A ! t]\<rparr>)"
proof -
  from assms(1) obtain A where A: "realign L M = Inr A"
    using realign_total by blast
  have first: "A ! i = L ! nat w" if "maximal_run M i j w" for i j
  proof -
    from that have i: "i < length M" "M ! i = Some w" "i = 0 \<or> M ! (i - 1) \<noteq> Some w"
      by (auto simp: maximal_run_def)
    then have w: "in_range L w"
      using assms(1) valid_map_nth by blast
    show ?thesis
      using realign_nth_first [OF A i(1) i(2) w i(3)] .
  qed
  have "loop_body L \<lparr>prev_idx = (if t = 0 then None else M ! (t - 1)),
                     single_new_ner_tag = []\<rparr> (M ! t)
        = Inr \<lparr>prev_idx = M ! t, single_new_ner_tag = [A ! t]\<rparr>" if "t < length M" for t
    using A that by (simp add: realign_Inr_iff loop_body_label_of)
  with A first [OF assms(2)] first [OF assms(3)] show ?thesis
    by blast
qed

text \<open>
  C8 on \<open>L = [1, 2]\<close>, \<open>M = [0, 1, 0]\<close>.
\<close>

theorem realign_nonadjacent_runs_witness:
  "valid_map [1, 2] [Some 0, Some 1, Some 0]
   \<and> maximal_run [Some 0, Some 1, Some 0] 0 1 0
   \<and> maximal_run [Some 0, Some 1, Some 0] 2 3 0
   \<and> (\<exists>A. realign [1, 2] [Some 0, Some 1, Some 0] = Inr A
          \<and> A ! 0 = [1, 2] ! nat 0 \<and> A ! 2 = [1, 2] ! nat 0)"
proof -
  have v: "valid_map [1, 2] [Some 0, Some 1, Some 0]"
    by (simp add: valid_map_def in_range_def)
  have r1: "maximal_run [Some 0, Some 1, Some 0] 0 1 0"
    by code_simp
  have r2: "maximal_run [Some 0, Some 1, Some 0] 2 3 0"
    by code_simp
  have k: "(1::nat) \<le> 1" "(1::nat) < 2" "[Some 0, Some 1, Some 0] ! 1 = Some (1::int)"
    "(1::int) \<noteq> 0"
    by simp_all
  from realign_nonadjacent_runs [OF v r1 r2 k] v r1 r2 show ?thesis
    by blast
qed

text \<open>
  C9. Let \<open>predictions\<close> and \<open>labels\<close> hold the same number of examples, each pair of the
  same length, and let \<open>compute_metrics\<close> reach the call of the metric with the arguments
  \<open>(preds, refs)\<close>. Then for each example both filtered sequences are read off at the same
  positions, those where the true label is not \<open>-100\<close>: \<open>preds\<close> holds the names of the
  predictions there and \<open>refs\<close> the names of the true labels there, so the two have equal
  length and no position whose true label is \<open>-100\<close> is left.
\<close>

theorem seqeval_arguments_same_positions:
  assumes "length predictions = length labels"
    and "\<forall>i<length labels. length (predictions ! i) = length (labels ! i)"
    and "seqeval_arguments id2label predictions labels = Inr (preds, refs)"
  shows "length preds = length labels \<and> length refs = length labels
         \<and> (\<forall>i<length labels.
               map Inr (preds ! i)
                 = map (\<lambda>t. dict_getitem id2label (predictions ! i ! t))
                       (kept_positions (labels ! i))
               \<and> map Inr (refs ! i)
                 = map (\<lambda>t. dict_getitem id2label (labels ! i ! t))
                       (kept_positions (labels ! i))
               \<and> length (preds ! i) = length (refs ! i)
               \<and> (\<forall>t<length (labels ! i).
                     t \<in> set (kept_positions (labels ! i)) \<longleftrightarrow> labels ! i ! t \<noteq> IGNORE))"
proof -
  from assms(3) have r: "true_labels id2label labels = Inr refs"
    and p: "true_predictions id2label predictions labels = Inr preds"
    by (auto simp: seqeval_arguments_def split: sum.splits)
  have "length (preds ! i) = length (refs ! i)"
    if "i < length labels" for i
  proof -
    have "length (map (Inr :: string \<Rightarrow> py_error + string) (preds ! i))
          = length (map (Inr :: string \<Rightarrow> py_error + string) (refs ! i))"
      using true_labels_Inr_D(2) [OF r that] true_predictions_Inr_D(2) [OF p assms(1) that]
        assms(2) that by simp
    then show ?thesis by simp
  qed
  moreover have "t \<in> set (kept_positions ls) \<longleftrightarrow> ls ! t \<noteq> IGNORE" if "t < length ls" for t ls
    using that by (simp add: kept_positions_def)
  ultimately show ?thesis
    using true_labels_Inr_D [OF r] true_predictions_Inr_D [OF p assms(1)] assms(2)
    by simp
qed

text \<open>
  C9 on one example with predictions \<open>[1, 0, 1]\<close>, labels \<open>[-100, 0, 1]\<close> and the names
  \<open>O\<close>, \<open>B\<close>.
\<close>

theorem seqeval_arguments_same_positions_witness:
  "length [[1, 0, 1 :: int]] = length [[IGNORE, 0, 1]]
   \<and> seqeval_arguments (id2label_of [''O'', ''B'']) [[1, 0, 1]] [[IGNORE, 0, 1]]
       = Inr ([[''O'', ''B'']], [[''O'', ''B'']])
   \<and> length ([[''O'', ''B'']] ! 0) = length ([[''O'', ''B'']] ! 0)
   \<and> map Inr ([[''O'', ''B'']] ! 0)
       = map (\<lambda>t. dict_getitem (id2label_of [''O'', ''B'']) ([[1, 0, 1]] ! 0 ! t))
             (kept_positions ([[IGNORE, 0, 1]] ! 0))"
proof -
  have l: "length [[1, 0, 1 :: int]] = length [[IGNORE, 0, 1]]"
    by simp
  have e: "\<forall>i<length [[IGNORE, 0, 1]]. length ([[1, 0, 1 :: int]] ! i) = length ([[IGNORE, 0, 1]] ! i)"
    by simp
  have r: "seqeval_arguments (id2label_of [''O'', ''B'']) [[1, 0, 1]] [[IGNORE, 0, 1]]
       = Inr ([[''O'', ''B'']], [[''O'', ''B'']])"
    by (simp add: seqeval_arguments_def true_labels_def true_predictions_def id2label_of_def
        dict_getitem_def)
  from seqeval_arguments_same_positions [OF l e r] l r show ?thesis
    by simp
qed

text \<open>
  C10. Let \<open>M\<close> be valid, with the word index \<open>w\<close> at positions \<open>i\<close> and \<open>j\<close> and \<open>None\<close> at
  every position between them, of which there is at least one. Then the output at \<open>j\<close>
  is \<open>L[w]\<close> again, the positions between are \<open>-100\<close>, and the loop reaches position \<open>j\<close>
  with \<open>prev_idx = None\<close>: the assignment \<open>prev_idx = word_idx\<close> runs on the sentinel
  iterations too.
\<close>

theorem realign_sentinel_resets:
  assumes "valid_map L M" and "i + 1 < j" and "j < length M"
    and "M ! i = Some w" and "M ! j = Some w" and "\<forall>t\<in>{i<..<j}. M ! t = None"
  shows "\<exists>A. realign L M = Inr A \<and> A ! j = L ! nat w \<and> (\<forall>t\<in>{i<..<j}. A ! t = IGNORE)
           \<and> (\<exists>s. word_ids_loop L (take j M) \<lparr>prev_idx = None, single_new_ner_tag = []\<rparr> = Inr s
                    \<and> prev_idx s = None \<and> single_new_ner_tag s = take j A)"
proof -
  from assms(1) obtain A where A: "realign L M = Inr A"
    using realign_total by blast
  have len: "length A = length M"
    using A by (simp add: realign_Inr_iff)
  have before: "M ! (j - 1) = None"
    using assms(2,6) by simp
  have w: "in_range L w"
    using assms(1,3,5) valid_map_nth by blast
  have j: "A ! j = L ! nat w"
    using realign_nth_first [OF A assms(3,5) w] before by simp
  have mid: "\<forall>t\<in>{i<..<j}. A ! t = IGNORE"
    using realign_nth_None [OF A] assms(3,6) by simp
  have "labels_from L None M = map Inr A"
    using A by (simp add: realign_labels_from comprehension_Inr_iff)
  then have "take j (labels_from L None M) = map Inr (take j A)"
    by (simp add: take_map)
  moreover have "take j (labels_from L p M) = labels_from L p (take j M)" for p
    by (induction M arbitrary: p j) (auto simp: take_Cons split: nat.splits)
  ultimately have "comprehension (labels_from L None (take j M)) = Inr (take j A)"
    by (simp add: comprehension_Inr_iff)
  moreover have "last (None # take j M) = None"
    using assms(2,3) before by (simp add: last_conv_nth)
  ultimately have "word_ids_loop L (take j M) \<lparr>prev_idx = None, single_new_ner_tag = []\<rparr>
      = Inr \<lparr>prev_idx = None, single_new_ner_tag = take j A\<rparr>"
    by (simp add: word_ids_loop_labels_from)
  with A j mid show ?thesis
    by simp
qed

text \<open>
  C10 on \<open>L = [5]\<close>, \<open>M = [0, None, 0]\<close>.
\<close>

theorem realign_sentinel_resets_witness:
  "valid_map [5] [Some 0, None, Some 0]
   \<and> (\<exists>A. realign [5] [Some 0, None, Some 0] = Inr A \<and> A ! 2 = [5] ! nat 0
          \<and> (\<forall>t\<in>{0<..<2}. A ! t = IGNORE))"
proof -
  have v: "valid_map [5] [Some 0, None, Some 0]"
    by (simp add: valid_map_def in_range_def)
  have h: "(0::nat) + 1 < 2" "2 < length [Some (0::int), None, Some 0]"
    "[Some (0::int), None, Some 0] ! 0 = Some 0" "[Some (0::int), None, Some 0] ! 2 = Some 0"
    by simp_all
  have m: "\<forall>t\<in>{0<..<2}. [Some (0::int), None, Some 0] ! t = None"
    by code_simp
  from realign_sentinel_resets [OF v h m] v show ?thesis
    by blast
qed

end
